theory Spec2Isabelle
  imports Main
begin

section \<open>Exceptions\<close>

text \<open>
  The exceptions the program can raise, as values. A \<open>ValueError\<close> carries its message:
  the program raises it for a malformed name, phone or birthday, for a phone that is not
  found, and the interpreter raises it for a failed tuple unpacking and for an impossible
  calendar date. A method that may raise returns \<open>error + 'a\<close>, \<open>Inl\<close> being the raise.
\<close>

datatype error = KeyError | ValueError string | IndexError | OverflowError string

section \<open>Characters and strings\<close>

text \<open>
  A Python string is a list of characters; a character is modelled by its code point, and
  the model covers the code points below 256. The three character classes are those of
  Python on these code points: \<open>str.isspace\<close> (used by \<open>strip\<close>), \<open>str.isdigit\<close>
  (which, besides the decimal digits, holds of the superscript digits U+00B2, U+00B3 and
  U+00B9) and the decimal digits (the class \<open>\d\<close> of a regular expression).
\<close>

definition isspace :: "char \<Rightarrow> bool" where
  "isspace c = (c \<in> set [CHR 0x09, CHR 0x0A, CHR 0x0B, CHR 0x0C, CHR 0x0D,
                          CHR 0x1C, CHR 0x1D, CHR 0x1E, CHR 0x1F, CHR 0x20,
                          CHR 0x85, CHR 0xA0])"

definition isdecimal :: "char \<Rightarrow> bool" where
  "isdecimal c = (c \<in> set ''0123456789'')"

definition isdigit :: "char \<Rightarrow> bool" where
  "isdigit c = (isdecimal c \<or> c \<in> set [CHR 0xB2, CHR 0xB3, CHR 0xB9])"

text \<open>\<open>s.isdigit()\<close>: every character is a digit and there is at least one.\<close>

definition str_isdigit :: "string \<Rightarrow> bool" where
  "str_isdigit s = (s \<noteq> [] \<and> list_all isdigit s)"

text \<open>\<open>s.strip()\<close>: leading and trailing whitespace removed.\<close>

definition strip :: "string \<Rightarrow> string" where
  "strip s = rev (dropWhile isspace (rev (dropWhile isspace s)))"

text \<open>Decimal digits and numbers, as \<open>int(...)\<close> reads them and as formatting writes them.\<close>

definition digit_char :: "nat \<Rightarrow> char" where
  "digit_char n = ''0123456789'' ! n"

definition digit_val :: "char \<Rightarrow> nat" where
  "digit_val c = of_char c - 48"

fun str_nat :: "nat \<Rightarrow> string" where
  "str_nat n = (if n < 10 then [digit_char n] else str_nat (n div 10) @ [digit_char (n mod 10)])"

declare str_nat.simps [simp del]

text \<open>\<open>'%0wd' % n\<close>: the decimal digits of \<open>n\<close>, padded with zeros on the left to width \<open>w\<close>.\<close>

definition zero_padded :: "nat \<Rightarrow> nat \<Rightarrow> string" where
  "zero_padded w n = replicate (w - length (str_nat n)) (CHR ''0'') @ str_nat n"

text \<open>
  \<open>int(s)\<close> on the text of a group of the date pattern: surrounding whitespace is
  dropped and the decimal digits are read from left to right.
\<close>

definition int_of_text :: "string \<Rightarrow> nat" where
  "int_of_text s = foldl (\<lambda>v c. 10 * v + digit_val c) 0 (strip s)"

section \<open>Calendar dates\<close>

text \<open>
  \<open>datetime.date\<close>: a year, a month and a day. The constructor accepts the years 1 to
  9999 and the days that exist in the month; the ordinal of a date counts the days from
  0001-01-01, which has ordinal 1.
\<close>

record date =
  year :: nat
  month :: nat
  day :: nat

definition MAXYEAR :: nat where
  "MAXYEAR = 9999"

definition DAYS_IN_MONTH :: "nat list" where
  "DAYS_IN_MONTH = [0, 31, 28, 31, 30, 31, 30, 31, 31, 30, 31, 30, 31]"

definition DAYS_BEFORE_MONTH :: "nat list" where
  "DAYS_BEFORE_MONTH = [0, 0, 31, 59, 90, 120, 151, 181, 212, 243, 273, 304, 334]"

definition is_leap :: "nat \<Rightarrow> bool" where
  "is_leap y = (y mod 4 = 0 \<and> (y mod 100 \<noteq> 0 \<or> y mod 400 = 0))"

definition days_before_year :: "nat \<Rightarrow> nat" where
  "days_before_year yr = (let y = yr - 1 in y * 365 + y div 4 - y div 100 + y div 400)"

definition days_in_month :: "nat \<Rightarrow> nat \<Rightarrow> nat" where
  "days_in_month y m = (if m = 2 \<and> is_leap y then 29 else DAYS_IN_MONTH ! m)"

definition days_before_month :: "nat \<Rightarrow> nat \<Rightarrow> nat" where
  "days_before_month y m = DAYS_BEFORE_MONTH ! m + (if m > 2 \<and> is_leap y then 1 else 0)"

definition ymd2ord :: "nat \<Rightarrow> nat \<Rightarrow> nat \<Rightarrow> nat" where
  "ymd2ord y m d = days_before_year y + days_before_month y m + d"

definition toordinal :: "date \<Rightarrow> nat" where
  "toordinal d = ymd2ord (year d) (month d) (day d)"

text \<open>\<open>d.weekday()\<close>: Monday is 0 and Sunday is 6.\<close>

definition weekday :: "date \<Rightarrow> nat" where
  "weekday d = (toordinal d + 6) mod 7"

text \<open>\<open>date(y, m, d)\<close>: the checks of the constructor.\<close>

definition date_new :: "nat \<Rightarrow> nat \<Rightarrow> nat \<Rightarrow> error + date" where
  "date_new y m d =
     (if \<not> (1 \<le> y \<and> y \<le> MAXYEAR) then
        Inl (ValueError (''year '' @ str_nat y @ '' is out of range''))
      else if \<not> (1 \<le> m \<and> m \<le> 12) then Inl (ValueError ''month must be in 1..12'')
      else if \<not> (1 \<le> d \<and> d \<le> days_in_month y m) then
        Inl (ValueError ''day is out of range for month'')
      else Inr \<lparr>year = y, month = m, day = d\<rparr>)"

text \<open>\<open>d.replace(year=y)\<close> builds a new date through the constructor.\<close>

definition replace_year :: "date \<Rightarrow> nat \<Rightarrow> error + date" where
  "replace_year d y = date_new y (month d) (day d)"

text \<open>\<open>a < b\<close> on dates compares year, month and day in this order.\<close>

definition date_less :: "date \<Rightarrow> date \<Rightarrow> bool" where
  "date_less a b =
     (year a < year b \<or> (year a = year b \<and>
        (month a < month b \<or> (month a = month b \<and> day a < day b))))"

text \<open>\<open>(a - b).days\<close>: the difference of the ordinals.\<close>

definition days_between :: "date \<Rightarrow> date \<Rightarrow> int" where
  "days_between a b = int (toordinal a) - int (toordinal b)"

text \<open>
  \<open>d + timedelta(days=k)\<close> for \<open>k \<ge> 0\<close>: the date \<open>k\<close> days later, one day at a time;
  past 9999-12-31 the addition raises \<open>OverflowError\<close>.
\<close>

definition next_day :: "date \<Rightarrow> date" where
  "next_day d =
     (if day d < days_in_month (year d) (month d) then d\<lparr>day := day d + 1\<rparr>
      else if month d < 12 then d\<lparr>month := month d + 1, day := 1\<rparr>
      else \<lparr>year = year d + 1, month = 1, day = 1\<rparr>)"

fun date_add_days :: "date \<Rightarrow> nat \<Rightarrow> error + date" where
  "date_add_days d 0 = Inr d"
| "date_add_days d (Suc k) =
     (if year d = MAXYEAR \<and> month d = 12 \<and> day d = 31
      then Inl (OverflowError ''date value out of range'')
      else date_add_days (next_day d) k)"

text \<open>
  \<open>strftime\<close> with the directives the program uses: \<open>%d\<close> and \<open>%m\<close> are two digits,
  \<open>%Y\<close> is the year with century in four digits, all padded with zeros.
\<close>

definition strftime_dmY :: "date \<Rightarrow> string" where
  "strftime_dmY d =
     zero_padded 2 (day d) @ ''.'' @ zero_padded 2 (month d) @ ''.'' @ zero_padded 4 (year d)"

definition strftime_Ymd :: "date \<Rightarrow> string" where
  "strftime_Ymd d =
     zero_padded 4 (year d) @ ''-'' @ zero_padded 2 (month d) @ ''-'' @ zero_padded 2 (day d)"


section \<open>Parsing a date: \<open>strptime(text, '%d.%m.%Y')\<close>\<close>

text \<open>
  \<open>strptime\<close> turns the format into a regular expression, one group per directive, and
  matches it at the start of the text:
  \<^item> \<open>%d\<close> is \<open>3[0-1]|[1-2]\d|0[1-9]|[1-9]| [1-9]\<close>,
  \<^item> \<open>%m\<close> is \<open>1[0-2]|0[1-9]|[1-9]\<close>,
  \<^item> \<open>%Y\<close> is \<open>\d\d\d\d\<close>,
  \<^item> the dots of the format match themselves.
  A pattern is modelled by the list of its matches at the start of a text, in the order
  in which the matcher tries them: each match is the text of the group and the rest of
  the input. The first match of the whole expression is the one \<open>strptime\<close> uses.
\<close>

definition char_in :: "string \<Rightarrow> char \<Rightarrow> bool" where
  "char_in cs c = (c \<in> set cs)"

definition rx_seq1 :: "(char \<Rightarrow> bool) \<Rightarrow> string \<Rightarrow> (string \<times> string) list" where
  "rx_seq1 p s = (case s of a # r \<Rightarrow> if p a then [([a], r)] else [] | _ \<Rightarrow> [])"

definition rx_seq2 ::
  "(char \<Rightarrow> bool) \<Rightarrow> (char \<Rightarrow> bool) \<Rightarrow> string \<Rightarrow> (string \<times> string) list" where
  "rx_seq2 p q s = (case s of a # b # r \<Rightarrow> if p a \<and> q b then [([a, b], r)] else [] | _ \<Rightarrow> [])"

definition rx_lit :: "char \<Rightarrow> string \<Rightarrow> string list" where
  "rx_lit c s = (case s of a # r \<Rightarrow> if a = c then [r] else [] | _ \<Rightarrow> [])"

definition rx_d :: "string \<Rightarrow> (string \<times> string) list" where
  "rx_d s = rx_seq2 (char_in ''3'') (char_in ''01'') s
          @ rx_seq2 (char_in ''12'') isdecimal s
          @ rx_seq2 (char_in ''0'') (char_in ''123456789'') s
          @ rx_seq1 (char_in ''123456789'') s
          @ rx_seq2 (char_in '' '') (char_in ''123456789'') s"

definition rx_m :: "string \<Rightarrow> (string \<times> string) list" where
  "rx_m s = rx_seq2 (char_in ''1'') (char_in ''012'') s
          @ rx_seq2 (char_in ''0'') (char_in ''123456789'') s
          @ rx_seq1 (char_in ''123456789'') s"

definition rx_Y :: "string \<Rightarrow> (string \<times> string) list" where
  "rx_Y s = (case s of a # b # c # d # r \<Rightarrow>
               if isdecimal a \<and> isdecimal b \<and> isdecimal c \<and> isdecimal d
               then [([a, b, c, d], r)] else []
             | _ \<Rightarrow> [])"

definition re_match_dmY :: "string \<Rightarrow> (string \<times> string \<times> string \<times> string) list" where
  "re_match_dmY s =
     [(d, m, Y, r5). (d, r1) \<leftarrow> rx_d s, r2 \<leftarrow> rx_lit (CHR ''.'') r1,
                     (m, r3) \<leftarrow> rx_m r2, r4 \<leftarrow> rx_lit (CHR ''.'') r3, (Y, r5) \<leftarrow> rx_Y r4]"

text \<open>
  No match, text left over after the match, or a date that the constructor refuses: each
  is a \<open>ValueError\<close> of \<open>strptime\<close>, here \<open>None\<close> (its only caller replaces the message).
\<close>

definition strptime_dmY :: "string \<Rightarrow> date option" where
  "strptime_dmY s =
     (case re_match_dmY s of
        [] \<Rightarrow> None
      | (d, m, Y, rest) # _ \<Rightarrow>
          if rest \<noteq> [] then None
          else (case date_new (int_of_text Y) (int_of_text m) (int_of_text d) of
                  Inl _ \<Rightarrow> None
                | Inr dt \<Rightarrow> Some dt))"

section \<open>The validated fields\<close>

text \<open>
  A field holds one value. \<open>Name\<close>, \<open>Phone\<close> and \<open>Birthday\<close> are the constructors of the
  three classes: each returns the value the field holds, or the \<open>ValueError\<close> it raises.
  (The \<open>TypeError\<close> for an argument that is not a string cannot occur: the argument is a
  string by its type.)
\<close>

definition Name :: "string \<Rightarrow> error + string" where
  "Name v =
     (let nm = strip v in
      if nm = [] then Inl (ValueError ''Name cannot be empty.'') else Inr nm)"

definition Phone :: "string \<Rightarrow> error + string" where
  "Phone v =
     (let digits = strip v in
      if \<not> str_isdigit digits \<or> length digits \<noteq> 10
      then Inl (ValueError ''Phone must contain exactly 10 digits.'')
      else Inr digits)"

definition Birthday :: "string \<Rightarrow> error + date" where
  "Birthday v =
     (case strptime_dmY (strip v) of
        None \<Rightarrow> Inl (ValueError (''Birthday date must be in '' @ [CHR 0x27] @ ''DD.MM.YYYY''
                                   @ [CHR 0x27] @ '' format.''))
      | Some dt \<Rightarrow> Inr dt)"

text \<open>\<open>Birthday.__str__\<close>\<close>

definition Birthday_str :: "date \<Rightarrow> string" where
  "Birthday_str dt = strftime_dmY dt"

section \<open>Record\<close>

text \<open>
  One contact: the value of its \<open>Name\<close>, the values of its \<open>Phone\<close>s in order, and its
  birthday, \<open>None\<close> until one is set. A method that changes the record returns what it
  raises or returns together with the record afterwards.
\<close>

record Record =
  name :: string
  phones :: "string list"
  birthday :: "date option"

definition Record_init :: "string \<Rightarrow> error + Record" where
  "Record_init nm =
     (case Name nm of
        Inl e \<Rightarrow> Inl e
      | Inr n \<Rightarrow> Inr \<lparr>name = n, phones = [], birthday = None\<rparr>)"

definition edit_birthday :: "string \<Rightarrow> Record \<Rightarrow> (error + unit) \<times> Record" where
  "edit_birthday birthday_str r =
     (case Birthday birthday_str of
        Inl e \<Rightarrow> (Inl e, r)
      | Inr b \<Rightarrow> (Inr (), r\<lparr>birthday := Some b\<rparr>))"

definition remove_birthday :: "Record \<Rightarrow> (error + unit) \<times> Record" where
  "remove_birthday r = (Inr (), r\<lparr>birthday := None\<rparr>)"

definition add_phone :: "string \<Rightarrow> Record \<Rightarrow> (error + unit) \<times> Record" where
  "add_phone phone_str r =
     (case Phone phone_str of
        Inl e \<Rightarrow> (Inl e, r)
      | Inr phone \<Rightarrow> (Inr (), r\<lparr>phones := phones r @ [phone]\<rparr>))"

text \<open>
  The loop \<open>for i, ph in enumerate(self.phones): if ph.value == v: ...\<close> of the three phone
  methods: the index of the first phone equal to \<open>v\<close>, counting from \<open>i\<close>.
\<close>

fun first_index :: "string \<Rightarrow> string list \<Rightarrow> nat \<Rightarrow> nat option" where
  "first_index v [] i = None"
| "first_index v (ph # phs) i = (if ph = v then Some i else first_index v phs (Suc i))"

definition quoted :: "string \<Rightarrow> string" where
  "quoted s = [CHR 0x27] @ s @ [CHR 0x27]"

definition remove_phone :: "string \<Rightarrow> Record \<Rightarrow> (error + unit) \<times> Record" where
  "remove_phone phone_str r =
     (case first_index phone_str (phones r) 0 of
        Some i \<Rightarrow> (Inr (), r\<lparr>phones := take i (phones r) @ drop (Suc i) (phones r)\<rparr>)
      | None \<Rightarrow>
          (Inl (ValueError (''Phone '' @ quoted phone_str @ '' not found for contact ''
                            @ quoted (name r) @ ''.'')), r))"

definition edit_phone :: "string \<Rightarrow> string \<Rightarrow> Record \<Rightarrow> (error + unit) \<times> Record" where
  "edit_phone old_phone new_phone r =
     (case first_index old_phone (phones r) 0 of
        Some i \<Rightarrow>
          (case Phone new_phone of
             Inl e \<Rightarrow> (Inl e, r)
           | Inr new_ph \<Rightarrow> (Inr (), r\<lparr>phones := (phones r)[i := new_ph]\<rparr>))
      | None \<Rightarrow>
          (Inl (ValueError (''Old phone '' @ quoted old_phone @ '' not found for contact ''
                            @ quoted (name r) @ ''.'')), r))"

definition find_phone :: "string \<Rightarrow> Record \<Rightarrow> string option" where
  "find_phone phone_str r =
     (case first_index phone_str (phones r) 0 of
        Some i \<Rightarrow> Some (phones r ! i)
      | None \<Rightarrow> None)"

section \<open>AddressBook\<close>

text \<open>
  The book is a dictionary from name text to record. A dictionary keeps its keys in the
  order of insertion and holds each key once, so it is a list of pairs: storing under a
  key that is present replaces the value where it stands, storing under a new key appends,
  and deleting a key removes its pair.
\<close>

type_synonym AddressBook = "(string \<times> Record) list"

fun dict_set :: "string \<Rightarrow> Record \<Rightarrow> AddressBook \<Rightarrow> AddressBook" where
  "dict_set k v [] = [(k, v)]"
| "dict_set k v (p # ps) = (if fst p = k then (k, v) # ps else p # dict_set k v ps)"

definition dict_del :: "string \<Rightarrow> AddressBook \<Rightarrow> AddressBook" where
  "dict_del k b = filter (\<lambda>p. fst p \<noteq> k) b"

definition add_record :: "Record \<Rightarrow> AddressBook \<Rightarrow> AddressBook" where
  "add_record r b = dict_set (name r) r b"

definition find_record :: "string \<Rightarrow> AddressBook \<Rightarrow> Record option" where
  "find_record nm b = map_of b nm"

definition delete :: "string \<Rightarrow> AddressBook \<Rightarrow> (error + bool) \<times> AddressBook" where
  "delete nm b =
     (if nm \<in> set (map fst b) then (Inr True, dict_del nm b) else (Inr False, b))"

text \<open>
  The body of the loop of \<open>get_upcoming_birthdays\<close> for one record. Its outcome is a
  raise, or no entry (the record is skipped, \<open>Inr None\<close>), or the entry to append: the
  name and the congratulation date as text. With the outcome it returns the record as the
  body leaves it: the body holds the record object that the book holds, so what it would
  store in the record would show in the book.
\<close>

definition upcoming_entry ::
  "date \<Rightarrow> Record \<Rightarrow> (error + (string \<times> string) option) \<times> Record" where
  "upcoming_entry today r =
     (case birthday r of
        None \<Rightarrow> (Inr None, r)
      | Some bday \<Rightarrow>
          (case replace_year bday (year today) of
             Inl e \<Rightarrow> (Inl e, r)
           | Inr this_year \<Rightarrow>
               (case (if date_less this_year today
                      then replace_year this_year (year today + 1)
                      else Inr this_year) of
                  Inl e \<Rightarrow> (Inl e, r)
                | Inr this_year_bday \<Rightarrow>
                    (let delta_days = days_between this_year_bday today in
                     if 0 \<le> delta_days \<and> delta_days \<le> 7 then
                       (case (if weekday this_year_bday \<ge> 5
                              then date_add_days this_year_bday (7 - weekday this_year_bday)
                              else Inr this_year_bday) of
                          Inl e \<Rightarrow> (Inl e, r)
                        | Inr congratulate_day \<Rightarrow>
                            (Inr (Some (name r, strftime_Ymd congratulate_day)), r))
                     else (Inr None, r)))))"

text \<open>
  The loop \<open>for record in self.data.values()\<close> over the entries of the book that are still
  to visit, with the list \<open>upcoming\<close> built so far. It returns what the query raises or
  returns, and the entries afterwards: each visited record as the body left it, and after
  a raise the entries not yet visited as they were.
\<close>

fun upcoming_loop ::
  "date \<Rightarrow> AddressBook \<Rightarrow> (string \<times> string) list
     \<Rightarrow> (error + (string \<times> string) list) \<times> AddressBook" where
  "upcoming_loop today [] upcoming = (Inr upcoming, [])"
| "upcoming_loop today ((k, r) # rest) upcoming =
     (case upcoming_entry today r of
        (Inl e, r') \<Rightarrow> (Inl e, (k, r') # rest)
      | (Inr None, r') \<Rightarrow>
          (case upcoming_loop today rest upcoming of
             (outcome, rest') \<Rightarrow> (outcome, (k, r') # rest'))
      | (Inr (Some entry), r') \<Rightarrow>
          (case upcoming_loop today rest (upcoming @ [entry]) of
             (outcome, rest') \<Rightarrow> (outcome, (k, r') # rest')))"

text \<open>
  The query reads the clock (\<open>date.today()\<close>); the model takes today's date as an argument.
  It returns its outcome and the book afterwards.
\<close>

definition get_upcoming_birthdays ::
  "date \<Rightarrow> AddressBook \<Rightarrow> (error + (string \<times> string) list) \<times> AddressBook" where
  "get_upcoming_birthdays today b = upcoming_loop today b []"

section \<open>Command handlers\<close>

text \<open>
  The decorator \<open>input_error\<close> turns what a handler raises into a line of text. A handler
  is modelled by its body, which returns what it raises or returns together with the book
  afterwards, and by the decorated handler, which applies \<open>input_error\<close> to the outcome.
\<close>

definition input_error :: "error + string \<Rightarrow> string" where
  "input_error outcome =
     (case outcome of
        Inr s \<Rightarrow> s
      | Inl KeyError \<Rightarrow> ''Contact not found. Please check the name.''
      | Inl (ValueError _) \<Rightarrow> ''Give me name and phone please.''
      | Inl IndexError \<Rightarrow> ''Enter user name.''
      | Inl (OverflowError e) \<Rightarrow> ''Unexpected error: '' @ e)"

text \<open>
  The record that a handler found under a key and changed in place is the one the book
  holds: the book afterwards has the changed record under this key.
\<close>

definition put_record :: "string \<Rightarrow> Record \<Rightarrow> AddressBook \<Rightarrow> AddressBook" where
  "put_record k r b = map (\<lambda>p. if fst p = k then (k, r) else p) b"

definition add_contact_body ::
  "string list \<Rightarrow> AddressBook \<Rightarrow> (error + string) \<times> AddressBook" where
  "add_contact_body args contacts =
     (case args of
        [nm, phone] \<Rightarrow>
          (case find_record nm contacts of
             Some existing_record \<Rightarrow>
               (case add_phone phone existing_record of
                  (Inl e, r') \<Rightarrow> (Inl e, put_record nm r' contacts)
                | (Inr _, r') \<Rightarrow>
                    (Inr (''Added phone '' @ quoted phone @ '' to existing contact ''
                          @ quoted nm @ ''.''), put_record nm r' contacts))
           | None \<Rightarrow>
               (case Record_init nm of
                  Inl e \<Rightarrow> (Inl e, contacts)
                | Inr record \<Rightarrow>
                    (case add_phone phone record of
                       (Inl e, _) \<Rightarrow> (Inl e, contacts)
                     | (Inr _, record') \<Rightarrow>
                         (Inr (''Contact '' @ quoted nm @ '' with phone '' @ quoted phone
                               @ '' added.''), add_record record' contacts))))
      | _ \<Rightarrow>
          (Inl (ValueError
                 (if length args < 2
                  then ''not enough values to unpack (expected 2, got ''
                       @ str_nat (length args) @ '')''
                  else ''too many values to unpack (expected 2)'')), contacts))"

definition add_contact :: "string list \<Rightarrow> AddressBook \<Rightarrow> string \<times> AddressBook" where
  "add_contact args contacts =
     (case add_contact_body args contacts of (outcome, contacts') \<Rightarrow>
        (input_error outcome, contacts'))"

definition show_birthday_body ::
  "string list \<Rightarrow> AddressBook \<Rightarrow> (error + string) \<times> AddressBook" where
  "show_birthday_body args contacts =
     (case args of
        [] \<Rightarrow> (Inl IndexError, contacts)
      | nm # _ \<Rightarrow>
          (case find_record nm contacts of
             None \<Rightarrow> (Inl KeyError, contacts)
           | Some existing_record \<Rightarrow>
               (Inr (nm @ '': ''
                     @ (case birthday existing_record of
                          None \<Rightarrow> ''None''
                        | Some dt \<Rightarrow> Birthday_str dt)
                     @ ''.''), contacts)))"

definition show_birthday :: "string list \<Rightarrow> AddressBook \<Rightarrow> string \<times> AddressBook" where
  "show_birthday args contacts =
     (case show_birthday_body args contacts of (outcome, contacts') \<Rightarrow>
        (input_error outcome, contacts'))"

text \<open>\<open>sep.join(lines)\<close>\<close>

fun join :: "string \<Rightarrow> string list \<Rightarrow> string" where
  "join sep [] = []"
| "join sep [l] = l"
| "join sep (l # ls) = l @ sep @ join sep ls"

definition birthdays_body ::
  "string list \<Rightarrow> date \<Rightarrow> AddressBook \<Rightarrow> (error + string) \<times> AddressBook" where
  "birthdays_body args today contacts =
     (case get_upcoming_birthdays today contacts of
        (Inl e, contacts') \<Rightarrow> (Inl e, contacts')
      | (Inr upcoming, contacts') \<Rightarrow>
          (Inr (join [CHR 0x0A]
                  (''Upcoming birthdays (next 7 days):''
                   # map (\<lambda>contact. fst contact @ '' -> '' @ snd contact) upcoming)),
           contacts'))"

definition birthdays :: "string list \<Rightarrow> date \<Rightarrow> AddressBook \<Rightarrow> string \<times> AddressBook" where
  "birthdays args today contacts =
     (case birthdays_body args today contacts of (outcome, contacts') \<Rightarrow>
        (input_error outcome, contacts'))"

section \<open>Sequences of operations on a book\<close>

text \<open>
  The operations that change a book or a record in it: adding a record, deleting a name,
  and calling one of the five mutating methods on the record found under a key. A method
  that raises leaves the record as the method left it; a key that is absent leaves the book
  as it is.
\<close>

datatype operation =
    AddRecord Record
  | Delete string
  | AddPhone string string
  | RemovePhone string string
  | EditPhone string string string
  | EditBirthday string string
  | RemoveBirthday string

definition on_record ::
  "string \<Rightarrow> (Record \<Rightarrow> (error + unit) \<times> Record) \<Rightarrow> AddressBook \<Rightarrow> AddressBook" where
  "on_record k method b =
     (case find_record k b of
        None \<Rightarrow> b
      | Some r \<Rightarrow> put_record k (snd (method r)) b)"

fun apply_operation :: "operation \<Rightarrow> AddressBook \<Rightarrow> AddressBook" where
  "apply_operation (AddRecord r) b = add_record r b"
| "apply_operation (Delete nm) b = snd (delete nm b)"
| "apply_operation (AddPhone k p) b = on_record k (add_phone p) b"
| "apply_operation (RemovePhone k p) b = on_record k (remove_phone p) b"
| "apply_operation (EditPhone k old new) b = on_record k (edit_phone old new) b"
| "apply_operation (EditBirthday k s) b = on_record k (edit_birthday s) b"
| "apply_operation (RemoveBirthday k) b = on_record k remove_birthday b"

fun run_operations :: "operation list \<Rightarrow> AddressBook \<Rightarrow> AddressBook" where
  "run_operations [] b = b"
| "run_operations (operation # rest) b = run_operations rest (apply_operation operation b)"

text \<open>Every key of the book is the name of the record stored under it.\<close>

definition keys_are_names :: "AddressBook \<Rightarrow> bool" where
  "keys_are_names b = list_all (\<lambda>p. fst p = name (snd p)) b"


section \<open>The texts that \<open>Birthday\<close> accepts\<close>

text \<open>
  The texts of the three groups of the date pattern, and the fields of a date text that
  \<open>strptime\<close> accepts: a day of one or two decimal digits, a month of one or two decimal
  digits and a year of four decimal digits that together denote a date of the calendar.
\<close>

definition day_tok :: "string \<Rightarrow> bool" where
  "day_tok d =
     (case d of
        [a] \<Rightarrow> char_in ''123456789'' a
      | [a, b] \<Rightarrow> (char_in ''3'' a \<and> char_in ''01'' b) \<or> (char_in ''12'' a \<and> isdecimal b)
                  \<or> (char_in ''0'' a \<and> char_in ''123456789'' b)
                  \<or> (char_in '' '' a \<and> char_in ''123456789'' b)
      | _ \<Rightarrow> False)"

definition month_tok :: "string \<Rightarrow> bool" where
  "month_tok m =
     (case m of
        [a] \<Rightarrow> char_in ''123456789'' a
      | [a, b] \<Rightarrow> (char_in ''1'' a \<and> char_in ''012'' b)
                  \<or> (char_in ''0'' a \<and> char_in ''123456789'' b)
      | _ \<Rightarrow> False)"

definition year_tok :: "string \<Rightarrow> bool" where
  "year_tok y = (length y = 4 \<and> list_all isdecimal y)"

definition accepted_fields :: "string \<Rightarrow> string \<Rightarrow> string \<Rightarrow> bool" where
  "accepted_fields ds ms ys =
     (length ds \<in> {1, 2} \<and> list_all isdecimal ds \<and>
      length ms \<in> {1, 2} \<and> list_all isdecimal ms \<and>
      length ys = 4 \<and> list_all isdecimal ys \<and>
      1 \<le> int_of_text ys \<and>
      1 \<le> int_of_text ms \<and> int_of_text ms \<le> 12 \<and>
      1 \<le> int_of_text ds \<and> int_of_text ds \<le> days_in_month (int_of_text ys) (int_of_text ms))"

section \<open>Dates of the calendar and the next birthday\<close>

text \<open>
  The dates that \<open>datetime.date\<close> can hold, and the next occurrence of a birthday as
  the specification words it: the birthday with its year replaced by today's year, or by
  the next year if that date is before today.
\<close>

definition valid_date :: "date \<Rightarrow> bool" where
  "valid_date d =
     (1 \<le> year d \<and> year d \<le> 9999 \<and> 1 \<le> month d \<and> month d \<le> 12 \<and>
      1 \<le> day d \<and> day d \<le> days_in_month (year d) (month d))"

definition next_occurrence :: "date \<Rightarrow> date \<Rightarrow> date" where
  "next_occurrence today bday =
     (if date_less (bday\<lparr>year := year today\<rparr>) today
      then bday\<lparr>year := year today + 1\<rparr>
      else bday\<lparr>year := year today\<rparr>)"

section \<open>Deleting a name\<close>

lemma find_record_None_iff: "find_record nm b = None \<longleftrightarrow> nm \<notin> set (map fst b)"
  by (simp add: find_record_def map_of_eq_None_iff)

lemma find_record_dict_del: "find_record nm (dict_del nm b) = None"
  by (auto simp: find_record_def dict_del_def map_of_eq_None_iff)

text \<open>
  Claim C7. For every book and every name, \<open>delete\<close> does not raise (its outcome is a
  returned truth value). When the name is absent it returns false and the book is
  unchanged; when the name is present it returns true and \<open>find\<close> of the name in the book
  afterwards returns none.
\<close>

theorem delete_outcome:
  "(find_record nm b = None \<longrightarrow> delete nm b = (Inr False, b)) \<and>
   (find_record nm b \<noteq> None \<longrightarrow>
      fst (delete nm b) = Inr True \<and> find_record nm (snd (delete nm b)) = None)"
  by (simp add: find_record_None_iff delete_def find_record_dict_del)

theorem delete_outcome_witness:
  "find_record ''Bob'' [(''Ann'', \<lparr>name = ''Ann'', phones = [''0123456789''], birthday = None\<rparr>)]
     = None \<and>
   delete ''Bob'' [(''Ann'', \<lparr>name = ''Ann'', phones = [''0123456789''], birthday = None\<rparr>)]
     = (Inr False, [(''Ann'', \<lparr>name = ''Ann'', phones = [''0123456789''], birthday = None\<rparr>)]) \<and>
   find_record ''Ann'' [(''Ann'', \<lparr>name = ''Ann'', phones = [''0123456789''], birthday = None\<rparr>)]
     \<noteq> None \<and>
   delete ''Ann'' [(''Ann'', \<lparr>name = ''Ann'', phones = [''0123456789''], birthday = None\<rparr>)]
     = (Inr True, [])"
  using delete_outcome [of "''Bob''"
      "[(''Ann'', \<lparr>name = ''Ann'', phones = [''0123456789''], birthday = None\<rparr>)]"]
    delete_outcome [of "''Ann''"
      "[(''Ann'', \<lparr>name = ''Ann'', phones = [''0123456789''], birthday = None\<rparr>)]"]
  by (simp add: find_record_def delete_def dict_del_def)

section \<open>The handlers \<open>add\<close> and \<open>show-birthday\<close>\<close>

text \<open>
  Claim C8. For every book, the \<open>add\<close> handler called with a list of exactly one argument
  returns the message for a wrong argument list, \<open>Give me name and phone please.\<close>, and
  the book is unchanged.
\<close>

theorem add_contact_one_argument:
  "add_contact [a] contacts = (''Give me name and phone please.'', contacts)"
  by (simp add: add_contact_def add_contact_body_def input_error_def)

text \<open>
  Claim C10. For every contact that is in the book and has no birthday, the
  \<open>show-birthday\<close> handler called with the contact's name returns the line
  \<open><name>: None.\<close>, not an error message, and leaves the book as it is.
\<close>

theorem show_birthday_unset:
  assumes "find_record nm contacts = Some r" and "birthday r = None"
  shows "show_birthday (nm # rest) contacts = (nm @ '': None.'', contacts)"
  using assms by (simp add: show_birthday_def show_birthday_body_def input_error_def)

theorem show_birthday_unset_witness:
  "find_record ''Ann'' [(''Ann'', \<lparr>name = ''Ann'', phones = [''0123456789''], birthday = None\<rparr>)]
     = Some \<lparr>name = ''Ann'', phones = [''0123456789''], birthday = None\<rparr> \<and>
   birthday \<lparr>name = ''Ann'', phones = [''0123456789''], birthday = None\<rparr> = None \<and>
   show_birthday [''Ann'']
     [(''Ann'', \<lparr>name = ''Ann'', phones = [''0123456789''], birthday = None\<rparr>)]
     = (''Ann: None.'',
        [(''Ann'', \<lparr>name = ''Ann'', phones = [''0123456789''], birthday = None\<rparr>)])"
proof -
  have found: "find_record ''Ann''
      [(''Ann'', \<lparr>name = ''Ann'', phones = [''0123456789''], birthday = None\<rparr>)]
     = Some \<lparr>name = ''Ann'', phones = [''0123456789''], birthday = None\<rparr>"
    by (simp add: find_record_def)
  have unset: "birthday \<lparr>name = ''Ann'', phones = [''0123456789''], birthday = None\<rparr> = None"
    by simp
  show ?thesis
    using found unset show_birthday_unset [OF found unset, of "[]"] by simp
qed

section \<open>Editing a phone\<close>

lemma first_index_None: "first_index v xs k = None \<longleftrightarrow> v \<notin> set xs"
  by (induction xs arbitrary: k) auto

lemma first_index_Some:
  "first_index v xs k = Some i \<Longrightarrow>
     k \<le> i \<and> i - k < length xs \<and> xs ! (i - k) = v \<and> (\<forall>j < i - k. xs ! j \<noteq> v)"
proof (induction xs arbitrary: k)
  case Nil
  then show ?case by simp
next
  case (Cons x xs)
  show ?case
  proof (cases "x = v")
    case True
    with Cons.prems show ?thesis by simp
  next
    case False
    with Cons.prems have "first_index v xs (Suc k) = Some i" by simp
    from Cons.IH [OF this]
    have *: "Suc k \<le> i" "i - Suc k < length xs" "xs ! (i - Suc k) = v"
      "\<forall>j < i - Suc k. xs ! j \<noteq> v" by auto
    from * have eq: "i - k = Suc (i - Suc k)" by arith
    show ?thesis using * False eq by (auto simp: nth_Cons split: nat.splits)
  qed
qed

lemma Phone_1112223333: "Phone ''1112223333'' = Inr ''1112223333''"
  by (simp add: Phone_def Let_def strip_def isspace_def str_isdigit_def isdigit_def
      isdecimal_def)

lemma Phone_12a: "Phone ''12a'' = Inl (ValueError ''Phone must contain exactly 10 digits.'')"
  by (simp add: Phone_def Let_def strip_def isspace_def str_isdigit_def isdigit_def
      isdecimal_def)

text \<open>
  Claim C5. For every record and all texts \<open>old_phone\<close> and \<open>new_phone\<close>:
  \<^item> if no phone of the record equals \<open>old_phone\<close>, \<open>edit_phone\<close> raises the not-found
    error (a \<open>ValueError\<close> with the message \<open>Old phone '...' not found for contact '...'.\<close>)
    and the record, so its phone list, is unchanged;
  \<^item> if a phone equals \<open>old_phone\<close> and \<open>new_phone\<close> is not a valid phone, it raises the
    validation error of \<open>Phone\<close> (a \<open>ValueError\<close> with the message
    \<open>Phone must contain exactly 10 digits.\<close>) and the record is unchanged;
  \<^item> otherwise it returns, and the phone list afterwards is the list before with the new
    phone at the position of the first phone equal to \<open>old_phone\<close>.
\<close>

theorem edit_phone_outcome:
  "(old_phone \<notin> set (phones r) \<longrightarrow>
      edit_phone old_phone new_phone r =
        (Inl (ValueError (''Old phone '' @ quoted old_phone @ '' not found for contact ''
                          @ quoted (name r) @ ''.'')), r)) \<and>
   (old_phone \<in> set (phones r) \<longrightarrow>
      (case Phone new_phone of
         Inl e \<Rightarrow> e = ValueError ''Phone must contain exactly 10 digits.'' \<and>
                  edit_phone old_phone new_phone r = (Inl e, r)
       | Inr new_ph \<Rightarrow>
           (\<exists>i < length (phones r).
              phones r ! i = old_phone \<and> (\<forall>j < i. phones r ! j \<noteq> old_phone) \<and>
              edit_phone old_phone new_phone r =
                (Inr (), r\<lparr>phones := (phones r)[i := new_ph]\<rparr>))))"
proof (intro conjI impI)
  assume "old_phone \<notin> set (phones r)"
  then have "first_index old_phone (phones r) 0 = None"
    by (simp add: first_index_None)
  then show "edit_phone old_phone new_phone r =
        (Inl (ValueError (''Old phone '' @ quoted old_phone @ '' not found for contact ''
                          @ quoted (name r) @ ''.'')), r)"
    by (simp add: edit_phone_def)
next
  assume "old_phone \<in> set (phones r)"
  then obtain i where i: "first_index old_phone (phones r) 0 = Some i"
    using first_index_None [of old_phone "phones r" 0]
    by (cases "first_index old_phone (phones r) 0") auto
  from first_index_Some [OF i]
  have props: "i < length (phones r)" "phones r ! i = old_phone"
    "\<forall>j < i. phones r ! j \<noteq> old_phone" by auto
  show "case Phone new_phone of
         Inl e \<Rightarrow> e = ValueError ''Phone must contain exactly 10 digits.'' \<and>
                  edit_phone old_phone new_phone r = (Inl e, r)
       | Inr new_ph \<Rightarrow>
           (\<exists>i < length (phones r).
              phones r ! i = old_phone \<and> (\<forall>j < i. phones r ! j \<noteq> old_phone) \<and>
              edit_phone old_phone new_phone r =
                (Inr (), r\<lparr>phones := (phones r)[i := new_ph]\<rparr>))"
  proof (cases "Phone new_phone")
    case (Inl e)
    then have "e = ValueError ''Phone must contain exactly 10 digits.''"
      by (auto simp: Phone_def Let_def split: if_splits)
    with Inl i show ?thesis by (simp add: edit_phone_def)
  next
    case (Inr new_ph)
    with i props show ?thesis by (auto simp: edit_phone_def)
  qed
qed


theorem edit_phone_outcome_witness:
  "''7'' \<notin> set (phones \<lparr>name = ''John'', phones = [''1234567890'', ''5555555555''],
                         birthday = None\<rparr>) \<and>
   edit_phone ''7'' ''1112223333''
      \<lparr>name = ''John'', phones = [''1234567890'', ''5555555555''], birthday = None\<rparr>
     = (Inl (ValueError (''Old phone '' @ quoted ''7'' @ '' not found for contact ''
                          @ quoted ''John'' @ ''.'')),
        \<lparr>name = ''John'', phones = [''1234567890'', ''5555555555''], birthday = None\<rparr>) \<and>
   ''5555555555'' \<in> set (phones \<lparr>name = ''John'', phones = [''1234567890'', ''5555555555''],
                                birthday = None\<rparr>) \<and>
   edit_phone ''5555555555'' ''12a''
      \<lparr>name = ''John'', phones = [''1234567890'', ''5555555555''], birthday = None\<rparr>
     = (Inl (ValueError ''Phone must contain exactly 10 digits.''),
        \<lparr>name = ''John'', phones = [''1234567890'', ''5555555555''], birthday = None\<rparr>) \<and>
   edit_phone ''5555555555'' ''1112223333''
      \<lparr>name = ''John'', phones = [''1234567890'', ''5555555555''], birthday = None\<rparr>
     = (Inr (), \<lparr>name = ''John'', phones = [''1234567890'', ''1112223333''], birthday = None\<rparr>)"
  using edit_phone_outcome [of "''7''"
      "\<lparr>name = ''John'', phones = [''1234567890'', ''5555555555''], birthday = None\<rparr>"
      "''1112223333''"]
    edit_phone_outcome [of "''5555555555''"
      "\<lparr>name = ''John'', phones = [''1234567890'', ''5555555555''], birthday = None\<rparr>"
      "''12a''"]
    edit_phone_outcome [of "''5555555555''"
      "\<lparr>name = ''John'', phones = [''1234567890'', ''5555555555''], birthday = None\<rparr>"
      "''1112223333''"]
  by (simp add: Phone_1112223333 Phone_12a edit_phone_def)

section \<open>The keys of a book\<close>

lemma keys_are_names_dict_set:
  "keys_are_names b \<Longrightarrow> keys_are_names (dict_set (name r) r b)"
  by (induction b) (auto simp: keys_are_names_def)

lemma keys_are_names_dict_del: "keys_are_names b \<Longrightarrow> keys_are_names (dict_del k b)"
  by (auto simp: keys_are_names_def dict_del_def list_all_iff)

lemma keys_are_names_put_record:
  "keys_are_names b \<Longrightarrow> name r = k \<Longrightarrow> keys_are_names (put_record k r b)"
  by (auto simp: keys_are_names_def put_record_def list_all_iff)

lemma find_record_name:
  "keys_are_names b \<Longrightarrow> find_record k b = Some r \<Longrightarrow> name r = k"
  by (auto simp: keys_are_names_def find_record_def list_all_iff dest!: map_of_SomeD)

lemma keys_are_names_on_record:
  assumes "keys_are_names b" and "\<And>r. name (snd (method r)) = name r"
  shows "keys_are_names (on_record k method b)"
  using assms
  by (auto simp: on_record_def find_record_name keys_are_names_put_record split: option.splits)

lemma method_keeps_name:
  "name (snd (add_phone p r)) = name r"
  "name (snd (remove_phone p r)) = name r"
  "name (snd (edit_phone old new r)) = name r"
  "name (snd (edit_birthday s r)) = name r"
  "name (snd (remove_birthday r)) = name r"
  by (auto simp: add_phone_def remove_phone_def edit_phone_def edit_birthday_def
      remove_birthday_def split: sum.splits option.splits)

lemma keys_are_names_apply_operation:
  "keys_are_names b \<Longrightarrow> keys_are_names (apply_operation operation b)"
  by (cases operation)
     (auto simp: add_record_def delete_def keys_are_names_dict_set keys_are_names_dict_del
        method_keeps_name intro!: keys_are_names_on_record)

lemma keys_are_names_run_operations:
  "keys_are_names b \<Longrightarrow> keys_are_names (run_operations operations b)"
  by (induction operations arbitrary: b) (auto simp: keys_are_names_apply_operation)

text \<open>
  Claim C6. In every book reached from the empty book by a sequence of \<open>add_record\<close>,
  \<open>delete\<close> and calls of the mutating methods of the records in the book (adding, editing
  and removing a phone, setting and clearing the birthday), every key is the name text of
  the record stored under it.
\<close>

theorem reachable_keys_are_names:
  "\<forall>(k, r) \<in> set (run_operations operations []). k = name r"
proof -
  have "keys_are_names (run_operations operations [])"
    by (rule keys_are_names_run_operations) (simp add: keys_are_names_def)
  then show ?thesis
    by (auto simp: keys_are_names_def list_all_iff)
qed

lemma run_example:
  "run_operations
     [AddRecord \<lparr>name = ''Ann'', phones = [], birthday = None\<rparr>,
      AddRecord \<lparr>name = ''Bob'', phones = [], birthday = None\<rparr>,
      AddPhone ''Ann'' ''1112223333'',
      Delete ''Bob'',
      RemoveBirthday ''Ann''] []
   = [(''Ann'', \<lparr>name = ''Ann'', phones = [''1112223333''], birthday = None\<rparr>)]"
  by (simp add: add_record_def delete_def dict_del_def on_record_def find_record_def
      put_record_def add_phone_def Phone_1112223333 remove_birthday_def)

theorem reachable_keys_are_names_witness:
  "(''Ann'', \<lparr>name = ''Ann'', phones = [''1112223333''], birthday = None\<rparr>)
     \<in> set (run_operations
          [AddRecord \<lparr>name = ''Ann'', phones = [], birthday = None\<rparr>,
           AddRecord \<lparr>name = ''Bob'', phones = [], birthday = None\<rparr>,
           AddPhone ''Ann'' ''1112223333'',
           Delete ''Bob'',
           RemoveBirthday ''Ann''] []) \<and>
   ''Ann'' = name \<lparr>name = ''Ann'', phones = [''1112223333''], birthday = None\<rparr>"
  using reachable_keys_are_names [of
      "[AddRecord \<lparr>name = ''Ann'', phones = [], birthday = None\<rparr>,
        AddRecord \<lparr>name = ''Bob'', phones = [], birthday = None\<rparr>,
        AddPhone ''Ann'' ''1112223333'',
        Delete ''Bob'',
        RemoveBirthday ''Ann'']"]
  unfolding run_example by simp

section \<open>The query does not change the book\<close>

lemma upcoming_entry_record: "snd (upcoming_entry today r) = r"
  by (simp add: upcoming_entry_def Let_def split: option.splits sum.splits)

lemma upcoming_loop_book: "snd (upcoming_loop today b upcoming) = b"
proof (induction b arbitrary: upcoming)
  case Nil
  then show ?case by simp
next
  case (Cons p rest)
  obtain k r where p: "p = (k, r)" by (cases p)
  obtain outcome r' where body: "upcoming_entry today r = (outcome, r')"
    by (cases "upcoming_entry today r")
  with upcoming_entry_record [of today r] have r': "r' = r" by simp
  show ?case
  proof (cases outcome)
    case (Inl e)
    with p body r' show ?thesis by simp
  next
    case (Inr entry)
    show ?thesis
    proof (cases entry)
      case None
      with Inr p body r' Cons.IH [of upcoming] show ?thesis
        by (auto split: prod.splits)
    next
      case (Some x)
      with Inr p body r' Cons.IH [of "upcoming @ [x]"] show ?thesis
        by (auto split: prod.splits)
    qed
  qed
qed

text \<open>
  Claim C9. The upcoming-birthdays query is read-only: for every book and every date, the
  book after the loop of the query has run over its records, whether the query returns or
  raises, is the book before it: the same keys in the same order and under each key the
  same record, with its name, its phones and its birthday. The same holds of the
  \<open>birthdays\<close> handler that calls the query.
\<close>

theorem upcoming_birthdays_read_only:
  "snd (get_upcoming_birthdays today b) = b \<and> snd (birthdays args today b) = b"
proof
  show q: "snd (get_upcoming_birthdays today b) = b"
    by (simp add: get_upcoming_birthdays_def upcoming_loop_book)
  obtain outcome b' where g: "get_upcoming_birthdays today b = (outcome, b')"
    by (cases "get_upcoming_birthdays today b")
  with q have "b' = b" by simp
  with g show "snd (birthdays args today b) = b"
    by (cases outcome) (simp_all add: birthdays_def birthdays_body_def)
qed

section \<open>Strings and numbers\<close>

lemma isdecimal_not_isspace: "isdecimal c \<Longrightarrow> \<not> isspace c"
  by (auto simp: isdecimal_def isspace_def)


lemma dropWhile_id: "xs = [] \<or> \<not> P (hd xs) \<Longrightarrow> dropWhile P xs = xs"
  by (cases xs) auto

lemma strip_id:
  assumes "s = [] \<or> (\<not> isspace (hd s) \<and> \<not> isspace (last s))"
  shows "strip s = s"
proof (cases "s = []")
  case True
  then show ?thesis by (simp add: strip_def)
next
  case False
  with assms have h: "\<not> isspace (hd s)" and l: "\<not> isspace (last s)" by auto
  from False h have 1: "dropWhile isspace s = s" by (simp add: dropWhile_id)
  from False l have 2: "dropWhile isspace (rev s) = rev s"
    by (intro dropWhile_id) (simp add: hd_rev)
  show ?thesis by (simp add: strip_def 1 2)
qed


lemma digit_val_digit_char: "n < 10 \<Longrightarrow> digit_val (digit_char n) = n"
proof -
  assume "n < 10"
  then have "n \<in> {0,1,2,3,4,5,6,7,8,9}" by auto
  then show ?thesis by (auto simp: digit_val_def digit_char_def)
qed

lemma isdecimal_digit_char: "n < 10 \<Longrightarrow> isdecimal (digit_char n)"
proof -
  assume "n < 10"
  then have "n \<in> {0,1,2,3,4,5,6,7,8,9}" by auto
  then show ?thesis by (auto simp: isdecimal_def digit_char_def)
qed


lemma digit_char_0: "digit_char 0 = CHR ''0''"
  by (simp add: digit_char_def)

lemma str_nat_small: "n < 10 \<Longrightarrow> str_nat n = [digit_char n]"
  by (subst str_nat.simps) simp

lemma str_nat_step: "10 \<le> n \<Longrightarrow> str_nat n = str_nat (n div 10) @ [digit_char (n mod 10)]"
  by (subst str_nat.simps) simp

lemma zero_padded_2:
  assumes "n < 100"
  shows "zero_padded 2 n = [digit_char (n div 10), digit_char (n mod 10)]"
proof (cases "n < 10")
  case True
  then show ?thesis by (simp add: zero_padded_def str_nat_small digit_char_0)
next
  case False
  with assms have "n div 10 < 10" by auto
  with False show ?thesis
    by (simp add: zero_padded_def str_nat_step str_nat_small)
qed

lemma str_nat_4:
  assumes "n < 10000"
  shows "replicate (4 - length (str_nat n)) (CHR ''0'') @ str_nat n =
     [digit_char (n div 1000), digit_char (n div 100 mod 10), digit_char (n div 10 mod 10),
      digit_char (n mod 10)]"
proof -
  consider "n < 10" | "10 \<le> n" "n < 100" | "100 \<le> n" "n < 1000" | "1000 \<le> n"
    by linarith
  then show ?thesis
  proof cases
    case 1
    then show ?thesis by (simp add: str_nat_small digit_char_0 numeral_3_eq_3)
  next
    case 2
    then have "n div 10 < 10" "n div 100 = 0" "n div 1000 = 0" by auto
    with 2 show ?thesis by (simp add: str_nat_step str_nat_small digit_char_0 numeral_2_eq_2)
  next
    case 3
    then have "n div 10 \<ge> 10" "n div 10 div 10 < 10" "n div 1000 = 0" by auto
    with 3 show ?thesis
      by (simp add: str_nat_step str_nat_small div_mult2_eq [symmetric] digit_char_0)
  next
    case 4
    with assms have "n div 10 \<ge> 10" "n div 10 div 10 \<ge> 10" "n div 10 div 10 div 10 < 10" by auto
    with 4 show ?thesis by (simp add: str_nat_step str_nat_small div_mult2_eq [symmetric])
  qed
qed

lemma zero_padded_4:
  "n < 10000 \<Longrightarrow> zero_padded 4 n =
     [digit_char (n div 1000), digit_char (n div 100 mod 10), digit_char (n div 10 mod 10),
      digit_char (n mod 10)]"
  by (simp add: zero_padded_def str_nat_4)

section \<open>Matching the date pattern\<close>

lemma in_rx_seq1: "(d, r) \<in> set (rx_seq1 p s) \<longleftrightarrow> (\<exists>a. d = [a] \<and> s = a # r \<and> p a)"
  by (auto simp: rx_seq1_def split: list.splits)

lemma in_rx_seq2:
  "(d, r) \<in> set (rx_seq2 p q s) \<longleftrightarrow> (\<exists>a b. d = [a, b] \<and> s = a # b # r \<and> p a \<and> q b)"
  by (auto simp: rx_seq2_def split: list.splits)

lemma in_rx_lit: "r \<in> set (rx_lit c s) \<longleftrightarrow> s = c # r"
  by (auto simp: rx_lit_def split: list.splits)

lemma in_rx_d: "(d, r) \<in> set (rx_d s) \<longleftrightarrow> s = d @ r \<and> day_tok d"
  by (auto simp: rx_d_def in_rx_seq1 in_rx_seq2 day_tok_def split: list.splits)

lemma in_rx_m: "(m, r) \<in> set (rx_m s) \<longleftrightarrow> s = m @ r \<and> month_tok m"
  by (auto simp: rx_m_def in_rx_seq1 in_rx_seq2 month_tok_def split: list.splits)

lemma length_4_iff: "length y = 4 \<longleftrightarrow> (\<exists>a b c d. y = [a, b, c, d])"
  by (auto simp: eval_nat_numeral length_Suc_conv)

lemma in_rx_Y: "(y, r) \<in> set (rx_Y s) \<longleftrightarrow> s = y @ r \<and> year_tok y"
  by (auto simp: rx_Y_def year_tok_def length_4_iff split: list.splits)

lemma concat_mapI: "x \<in> set xs \<Longrightarrow> y \<in> set (f x) \<Longrightarrow> y \<in> set (concat (map f xs))"
  by auto

lemma mapI: "x \<in> set xs \<Longrightarrow> y = f x \<Longrightarrow> y \<in> set (map f xs)"
  by auto

lemma in_re_match_dmY:
  "(d, m, y, r) \<in> set (re_match_dmY s) \<longleftrightarrow>
     s = d @ ''.'' @ m @ ''.'' @ y @ r \<and> day_tok d \<and> month_tok m \<and> year_tok y"
proof
  assume "(d, m, y, r) \<in> set (re_match_dmY s)"
  then show "s = d @ ''.'' @ m @ ''.'' @ y @ r \<and> day_tok d \<and> month_tok m \<and> year_tok y"
    by (auto simp: re_match_dmY_def in_rx_d in_rx_m in_rx_Y in_rx_lit)
next
  assume a: "s = d @ ''.'' @ m @ ''.'' @ y @ r \<and> day_tok d \<and> month_tok m \<and> year_tok y"
  then have 1: "(d, ''.'' @ m @ ''.'' @ y @ r) \<in> set (rx_d s)"
    by (simp add: in_rx_d)
  have 2: "m @ ''.'' @ y @ r \<in> set (rx_lit (CHR ''.'') (''.'' @ m @ ''.'' @ y @ r))"
    by (simp add: in_rx_lit)
  from a have 3: "(m, ''.'' @ y @ r) \<in> set (rx_m (m @ ''.'' @ y @ r))"
    by (simp add: in_rx_m)
  have 4: "y @ r \<in> set (rx_lit (CHR ''.'') (''.'' @ y @ r))"
    by (simp add: in_rx_lit)
  from a have 5: "(y, r) \<in> set (rx_Y (y @ r))"
    by (simp add: in_rx_Y)
  show "(d, m, y, r) \<in> set (re_match_dmY s)"
    unfolding re_match_dmY_def
    apply (rule concat_mapI [OF 1])
    apply (simp only: prod.case)
    apply (rule concat_mapI [OF 2])
    apply (rule concat_mapI [OF 3])
    apply (simp only: prod.case)
    apply (rule concat_mapI [OF 4])
    apply (rule mapI [OF 5])
    apply simp
    done
qed

lemma day_tok_no_dot: "day_tok d \<Longrightarrow> CHR ''.'' \<notin> set d"
  by (auto simp: day_tok_def char_in_def isdecimal_def split: list.splits)

lemma month_tok_no_dot: "month_tok d \<Longrightarrow> CHR ''.'' \<notin> set d"
  by (auto simp: month_tok_def char_in_def isdecimal_def split: list.splits)

lemma split_unique:
  "c \<notin> set xs \<Longrightarrow> c \<notin> set ys \<Longrightarrow> xs @ c # r = ys @ c # r' \<Longrightarrow> xs = ys \<and> r = r'"
proof (induction xs arbitrary: ys)
  case Nil
  then show ?case by (cases ys) auto
next
  case (Cons x xs)
  show ?case
  proof (cases ys)
    case Nil
    with Cons.prems show ?thesis by auto
  next
    case (Cons y ys')
    with Cons.prems have "x = y" "xs @ c # r = ys' @ c # r'" "c \<notin> set xs" "c \<notin> set ys'"
      by auto
    with Cons.IH [of ys'] Cons show ?thesis by simp
  qed
qed

lemma match_unique:
  assumes "(d, m, y, []) \<in> set (re_match_dmY s)" and "(d', m', y', r') \<in> set (re_match_dmY s)"
  shows "(d', m', y', r') = (d, m, y, [])"
proof -
  from assms(1) have 1: "s = d @ CHR ''.'' # m @ CHR ''.'' # y" "day_tok d" "month_tok m" "year_tok y"
    by (auto simp: in_re_match_dmY)
  from assms(2) have 2: "s = d' @ CHR ''.'' # m' @ CHR ''.'' # y' @ r'" "day_tok d'" "month_tok m'"
    "year_tok y'"
    by (auto simp: in_re_match_dmY)
  from 1 2 have "d @ CHR ''.'' # (m @ CHR ''.'' # y) = d' @ CHR ''.'' # (m' @ CHR ''.'' # y' @ r')"
    by simp
  from split_unique [OF _ _ this] 1 2 have d: "d = d'" and rest: "m @ CHR ''.'' # y = m' @ CHR ''.'' # y' @ r'"
    by (auto simp: day_tok_no_dot)
  from split_unique [OF _ _ rest] 1 2 have m: "m = m'" and y: "y = y' @ r'"
    by (auto simp: month_tok_no_dot)
  from y 1 2 have "r' = []" by (auto simp: year_tok_def)
  with d m y show ?thesis by simp
qed

lemma only_element:
  assumes "x \<in> set xs" and "\<forall>y \<in> set xs. y = x"
  shows "\<exists>rest. xs = x # rest"
proof (cases xs)
  case Nil
  with assms(1) show ?thesis by simp
next
  case (Cons a rest)
  with assms(2) have "a = x" by simp
  with Cons show ?thesis by simp
qed
lemma int_of_text_decimal:
  assumes "list_all isdecimal t"
  shows "int_of_text t = foldl (\<lambda>v c. 10 * v + digit_val c) 0 t"
proof -
  have "strip t = t"
  proof (cases "t = []")
    case True
    then show ?thesis by (simp add: strip_def)
  next
    case False
    with assms have "isdecimal (hd t)" "isdecimal (last t)" by (auto simp: list_all_iff)
    then show ?thesis
      by (intro strip_id) (simp add: isdecimal_not_isspace)
  qed
  then show ?thesis by (simp add: int_of_text_def)
qed

lemma month_cases:
  "1 \<le> m \<Longrightarrow> m \<le> 12 \<Longrightarrow>
     m = 1 \<or> m = 2 \<or> m = 3 \<or> m = 4 \<or> m = 5 \<or> m = 6 \<or> m = 7 \<or> m = 8 \<or> m = 9 \<or> m = 10
     \<or> m = 11 \<or> m = (12::nat)"
  by arith

lemma days_in_month_le_31:
  assumes "1 \<le> m" and "m \<le> 12"
  shows "days_in_month y m \<le> 31 \<and> 1 \<le> days_in_month y m"
  using month_cases [OF assms] by (auto simp: days_in_month_def DAYS_IN_MONTH_def)

lemma decimal_classes:
  assumes "isdecimal a"
  shows "char_in ''3'' a \<longleftrightarrow> digit_val a = 3"
    and "char_in ''01'' a \<longleftrightarrow> digit_val a \<le> 1"
    and "char_in ''12'' a \<longleftrightarrow> digit_val a = 1 \<or> digit_val a = 2"
    and "char_in ''0'' a \<longleftrightarrow> digit_val a = 0"
    and "char_in ''123456789'' a \<longleftrightarrow> 1 \<le> digit_val a"
    and "char_in ''012'' a \<longleftrightarrow> digit_val a \<le> 2"
    and "char_in ''1'' a \<longleftrightarrow> digit_val a = 1"
    and "\<not> char_in '' '' a"
    and "\<not> isspace a"
    and "digit_val a < 10"
  using assms by (auto simp: isdecimal_def char_in_def digit_val_def isspace_def)



lemma length_1_2: "length d \<in> {1, 2} \<longleftrightarrow> (\<exists>a. d = [a]) \<or> (\<exists>a b. d = [a, b])"
  by (auto simp: eval_nat_numeral length_Suc_conv)

lemma int_of_text_1: "isdecimal a \<Longrightarrow> int_of_text [a] = digit_val a"
  by (simp add: int_of_text_decimal)

lemma int_of_text_2:
  "isdecimal a \<Longrightarrow> isdecimal b \<Longrightarrow> int_of_text [a, b] = 10 * digit_val a + digit_val b"
  by (simp add: int_of_text_decimal)

lemma int_of_text_4:
  "isdecimal a \<Longrightarrow> isdecimal b \<Longrightarrow> isdecimal c \<Longrightarrow> isdecimal d \<Longrightarrow>
   int_of_text [a, b, c, d] =
     1000 * digit_val a + 100 * digit_val b + 10 * digit_val c + digit_val d"
  by (simp add: int_of_text_decimal)



lemma decimal_day_tok:
  assumes "length d \<in> {1, 2}" and "list_all isdecimal d" and "1 \<le> int_of_text d"
    and "int_of_text d \<le> 31"
  shows "day_tok d"
proof -
  from assms(1) length_1_2 [of d] consider a where "d = [a]" | a b where "d = [a, b]"
    by blast
  then show ?thesis
  proof cases
    case 1
    with assms have dec: "isdecimal a" by simp
    from 1 assms(3) dec have "1 \<le> digit_val a" by (simp add: int_of_text_1)
    then have "char_in ''123456789'' a" using decimal_classes(5) [OF dec] by simp
    with 1 show ?thesis by (simp add: day_tok_def)
  next
    case 2
    with assms have dec: "isdecimal a" "isdecimal b" by simp_all
    from 2 assms(3,4) dec
    have "1 \<le> 10 * digit_val a + digit_val b" "10 * digit_val a + digit_val b \<le> 31"
      by (simp_all add: int_of_text_2)
    then have "digit_val a = 3 \<and> digit_val b \<le> 1 \<or> (digit_val a = 1 \<or> digit_val a = 2)
        \<or> digit_val a = 0 \<and> 1 \<le> digit_val b"
      using decimal_classes(10) [OF dec(2)] by arith
    then have "(char_in ''3'' a \<and> char_in ''01'' b) \<or> (char_in ''12'' a \<and> isdecimal b)
             \<or> (char_in ''0'' a \<and> char_in ''123456789'' b)"
      using decimal_classes(1,3,4) [OF dec(1)] decimal_classes(2,5) [OF dec(2)] dec(2)
      by blast
    with 2 show ?thesis by (auto simp: day_tok_def)
  qed
qed



lemma decimal_month_tok:
  assumes "length m \<in> {1, 2}" and "list_all isdecimal m" and "1 \<le> int_of_text m"
    and "int_of_text m \<le> 12"
  shows "month_tok m"
proof -
  from assms(1) length_1_2 [of m] consider a where "m = [a]" | a b where "m = [a, b]"
    by blast
  then show ?thesis
  proof cases
    case 1
    with assms have dec: "isdecimal a" by simp
    from 1 assms(3) dec have "1 \<le> digit_val a" by (simp add: int_of_text_1)
    then have "char_in ''123456789'' a" using decimal_classes(5) [OF dec] by simp
    with 1 show ?thesis by (simp add: month_tok_def)
  next
    case 2
    with assms have dec: "isdecimal a" "isdecimal b" by simp_all
    from 2 assms(3,4) dec
    have "1 \<le> 10 * digit_val a + digit_val b" "10 * digit_val a + digit_val b \<le> 12"
      by (simp_all add: int_of_text_2)
    then have "digit_val a = 1 \<and> digit_val b \<le> 2 \<or> digit_val a = 0 \<and> 1 \<le> digit_val b"
      using decimal_classes(10) [OF dec(2)] by arith
    then have "(char_in ''1'' a \<and> char_in ''012'' b) \<or> (char_in ''0'' a \<and> char_in ''123456789'' b)"
      using decimal_classes(7,4) [OF dec(1)] decimal_classes(6,5) [OF dec(2)]
      by blast
    with 2 show ?thesis by (auto simp: month_tok_def)
  qed
qed

lemma year_tok_le:
  assumes "year_tok y"
  shows "int_of_text y \<le> 9999"
proof -
  from assms obtain a b c d where y: "y = [a, b, c, d]"
    by (auto simp: year_tok_def length_4_iff)
  with assms have dec: "isdecimal a" "isdecimal b" "isdecimal c" "isdecimal d"
    by (simp_all add: year_tok_def)
  have "digit_val a < 10" "digit_val b < 10" "digit_val c < 10" "digit_val d < 10"
    using dec by (simp_all add: decimal_classes(10))
  then show ?thesis unfolding y int_of_text_4 [OF dec] by arith
qed

lemma accepted_fields_tokens:
  "accepted_fields ds ms ys \<Longrightarrow> day_tok ds \<and> month_tok ms \<and> year_tok ys"
proof -
  assume a: "accepted_fields ds ms ys"
  then have m: "1 \<le> int_of_text ms" "int_of_text ms \<le> 12"
    by (simp_all add: accepted_fields_def)
  from a days_in_month_le_31 [OF m, of "int_of_text ys"] have "int_of_text ds \<le> 31"
    by (simp add: accepted_fields_def)
  with a show ?thesis
    by (simp add: accepted_fields_def decimal_day_tok decimal_month_tok year_tok_def)
qed

lemma strptime_dmY_accepts:
  assumes "accepted_fields ds ms ys"
  shows "strptime_dmY (ds @ ''.'' @ ms @ ''.'' @ ys)
         = Some \<lparr>year = int_of_text ys, month = int_of_text ms, day = int_of_text ds\<rparr>"
proof -
  let ?s = "ds @ ''.'' @ ms @ ''.'' @ ys"
  from accepted_fields_tokens [OF assms]
  have tok: "day_tok ds" "month_tok ms" "year_tok ys" by simp_all
  then have mem: "(ds, ms, ys, []) \<in> set (re_match_dmY ?s)"
    by (simp add: in_re_match_dmY)
  have "\<forall>x \<in> set (re_match_dmY ?s). x = (ds, ms, ys, [])"
  proof
    fix x assume x: "x \<in> set (re_match_dmY ?s)"
    obtain d' m' y' r' where "x = (d', m', y', r')" by (cases x) auto
    with match_unique [OF mem] x show "x = (ds, ms, ys, [])" by blast
  qed
  from only_element [OF mem this] obtain rest
    where first: "re_match_dmY ?s = (ds, ms, ys, []) # rest" ..
  from assms year_tok_le [OF tok(3)]
  have "date_new (int_of_text ys) (int_of_text ms) (int_of_text ds)
        = Inr \<lparr>year = int_of_text ys, month = int_of_text ms, day = int_of_text ds\<rparr>"
    by (simp add: date_new_def accepted_fields_def MAXYEAR_def)
  with first show ?thesis by (simp add: strptime_dmY_def)
qed

lemma date_new_Inr:
  "date_new y m d = Inr dt \<Longrightarrow>
     dt = \<lparr>year = y, month = m, day = d\<rparr> \<and> 1 \<le> y \<and> y \<le> 9999 \<and> 1 \<le> m \<and> m \<le> 12 \<and>
     1 \<le> d \<and> d \<le> days_in_month y m"
  by (auto simp: date_new_def MAXYEAR_def split: if_splits)


section \<open>Birthday\<close>




















section \<open>Phone\<close>



lemma Phone_cases:
  "Phone v = (if length (strip v) = 10 \<and> (\<forall>c \<in> set (strip v). isdigit c)
              then Inr (strip v)
              else Inl (ValueError ''Phone must contain exactly 10 digits.''))"
proof (cases "strip v = []")
  case True
  then show ?thesis by (simp add: Phone_def Let_def str_isdigit_def)
next
  case False
  then show ?thesis by (simp add: Phone_def Let_def str_isdigit_def list_all_iff)
qed

lemma Phone_0501234567: "Phone ''0501234567'' = Inr ''0501234567''"
  by (simp add: Phone_cases strip_def isspace_def isdigit_def isdecimal_def)






section \<open>The upcoming birthdays\<close>

lemma entry_ann_2023:
  "upcoming_entry \<lparr>year = 2023, month = 3, day = 1\<rparr>
     \<lparr>name = ''Ann'', phones = [], birthday = Some \<lparr>year = 2000, month = 2, day = 29\<rparr>\<rparr>
   = (Inl (ValueError ''day is out of range for month''),
      \<lparr>name = ''Ann'', phones = [], birthday = Some \<lparr>year = 2000, month = 2, day = 29\<rparr>\<rparr>)"
  by (simp add: upcoming_entry_def replace_year_def date_new_def MAXYEAR_def days_in_month_def
      is_leap_def DAYS_IN_MONTH_def)

lemma ordinals_2023:
  "toordinal \<lparr>year = 2023, month = 3, day = 1\<rparr> = 738580"
  "toordinal \<lparr>year = 2023, month = 3, day = 3\<rparr> = 738582"
  "toordinal \<lparr>year = 2023, month = 3, day = Suc 0\<rparr> = 738580"
  by (simp_all add: toordinal_def ymd2ord_def days_before_year_def days_before_month_def
      DAYS_BEFORE_MONTH_def is_leap_def Let_def)

lemma entry_bob_2023:
  "upcoming_entry \<lparr>year = 2023, month = 3, day = 1\<rparr>
     \<lparr>name = ''Bob'', phones = [], birthday = Some \<lparr>year = 1990, month = 3, day = 3\<rparr>\<rparr>
   = (Inr (Some (''Bob'', ''2023-03-03'')),
      \<lparr>name = ''Bob'', phones = [], birthday = Some \<lparr>year = 1990, month = 3, day = 3\<rparr>\<rparr>)"
  by (simp add: upcoming_entry_def replace_year_def date_new_def MAXYEAR_def days_in_month_def
      is_leap_def DAYS_IN_MONTH_def date_less_def days_between_def ordinals_2023 weekday_def
      strftime_Ymd_def zero_padded_2 zero_padded_4 digit_char_def Let_def)

lemma Birthday_29_02_2000:
  "Birthday ''29.02.2000'' = Inr \<lparr>year = 2000, month = 2, day = 29\<rparr>"
proof -
  have s: "strip ''29.02.2000'' = ''29'' @ ''.'' @ ''02'' @ ''.'' @ ''2000''"
    by (simp add: strip_def isspace_def)
  have i: "int_of_text ''29'' = 29" "int_of_text ''02'' = 2" "int_of_text ''2000'' = 2000"
    by (simp_all add: int_of_text_2 int_of_text_4 isdecimal_def digit_val_def)
  have "accepted_fields ''29'' ''02'' ''2000''"
    unfolding accepted_fields_def i
    by (simp add: isdecimal_def days_in_month_def is_leap_def)
  from strptime_dmY_accepts [OF this] show ?thesis
    unfolding Birthday_def s i by simp
qed

text \<open>
  Claim C1, at an input where the code does not do what the claim says. The claim gives,
  for every book and every date, the contacts that the query includes. Take the book with
  Ann, born on 29.02.2000 (a text that \<open>Birthday\<close> accepts), and Bob, born on 03.03.1990,
  and today 2023-03-01. Bob's next birthday, 2023-03-03, is two days after today, so the
  claim includes Bob; and with Bob alone in the book the query does include him. With Ann
  in the book the query includes nobody: replacing the year of Ann's birthday by 2023
  raises \<open>ValueError\<close>, which ends the query.
\<close>

theorem upcoming_birthdays_leap_day_raises:
  "Birthday ''29.02.2000'' = Inr \<lparr>year = 2000, month = 2, day = 29\<rparr> \<and>
   fst (get_upcoming_birthdays \<lparr>year = 2023, month = 3, day = 1\<rparr>
     [(''Ann'', \<lparr>name = ''Ann'', phones = [],
                birthday = Some \<lparr>year = 2000, month = 2, day = 29\<rparr>\<rparr>),
      (''Bob'', \<lparr>name = ''Bob'', phones = [],
                birthday = Some \<lparr>year = 1990, month = 3, day = 3\<rparr>\<rparr>)])
     = Inl (ValueError ''day is out of range for month'') \<and>
   fst (get_upcoming_birthdays \<lparr>year = 2023, month = 3, day = 1\<rparr>
     [(''Bob'', \<lparr>name = ''Bob'', phones = [],
                birthday = Some \<lparr>year = 1990, month = 3, day = 3\<rparr>\<rparr>)])
     = Inr [(''Bob'', ''2023-03-03'')]"
  unfolding get_upcoming_birthdays_def upcoming_loop.simps entry_ann_2023 entry_bob_2023
  using Birthday_29_02_2000 by simp

section \<open>Dates, weekdays and the formatted date\<close>

lemma div_step:
  fixes y k :: nat
  assumes "1 \<le> y"
  shows "y div k = (y - 1) div k + (if y mod k = 0 then 1 else 0)"
proof -
  from assms obtain n where y: "y = Suc n" by (cases y) auto
  show ?thesis unfolding y by (simp add: div_Suc)
qed

lemma mod_100_4: "y mod 100 = 0 \<Longrightarrow> y mod 4 = 0" for y :: nat
proof -
  assume "y mod 100 = 0"
  then have "y mod 100 mod 4 = 0" by simp
  moreover have "y mod 100 mod 4 = y mod 4" by (rule mod_mod_cancel) simp
  ultimately show ?thesis by simp
qed

lemma mod_400_100: "y mod 400 = 0 \<Longrightarrow> y mod 100 = 0" for y :: nat
proof -
  assume "y mod 400 = 0"
  then have "y mod 400 mod 100 = 0" by simp
  moreover have "y mod 400 mod 100 = y mod 100" by (rule mod_mod_cancel) simp
  ultimately show ?thesis by simp
qed

lemma days_before_year_step:
  assumes "1 \<le> y"
  shows "days_before_year (y + 1) = days_before_year y + (if is_leap y then 366 else 365)"
proof -
  define a b c where "a = (y - 1) div 4" and "b = (y - 1) div 100" and "c = (y - 1) div 400"
  have s4: "y div 4 = a + (if y mod 4 = 0 then 1 else 0)"
    unfolding a_def by (rule div_step [OF assms])
  have s100: "y div 100 = b + (if y mod 100 = 0 then 1 else 0)"
    unfolding b_def by (rule div_step [OF assms])
  have s400: "y div 400 = c + (if y mod 400 = 0 then 1 else 0)"
    unfolding c_def by (rule div_step [OF assms])
  have ba: "b \<le> a" unfolding a_def b_def by (rule div_le_mono2) simp_all
  from assms obtain n where y: "y = Suc n" by (cases y) auto
  have lhs: "days_before_year (y + 1) = y * 365 + y div 4 - y div 100 + y div 400"
    by (simp add: days_before_year_def Let_def)
  have rhs: "days_before_year y = (y - 1) * 365 + a - b + c"
    by (simp add: days_before_year_def Let_def a_def b_def c_def)
  have y365: "y * 365 = (y - 1) * 365 + 365" unfolding y by simp
  show ?thesis
    unfolding lhs rhs s4 s100 s400 y365 is_leap_def
    using ba mod_100_4 [of y] mod_400_100 [of y] by auto
qed

lemma days_before_month_step:
  assumes "1 \<le> m" and "m < 12"
  shows "days_before_month y (m + 1) = days_before_month y m + days_in_month y m"
proof -
  from assms have "1 \<le> m" "m \<le> 12" by simp_all
  from month_cases [OF this] assms(2)
  have "m = 1 \<or> m = 2 \<or> m = 3 \<or> m = 4 \<or> m = 5 \<or> m = 6 \<or> m = 7 \<or> m = 8 \<or> m = 9 \<or> m = 10
     \<or> m = 11" by simp
  then show ?thesis
    by (elim disjE)
       (simp_all add: days_before_month_def days_in_month_def DAYS_BEFORE_MONTH_def
          DAYS_IN_MONTH_def)
qed

lemma toordinal_next_day:
  assumes "valid_date d"
  shows "toordinal (next_day d) = toordinal d + 1"
proof -
  from assms have v: "1 \<le> year d" "1 \<le> month d" "month d \<le> 12" "1 \<le> day d"
    "day d \<le> days_in_month (year d) (month d)"
    by (simp_all add: valid_date_def)
  consider "day d < days_in_month (year d) (month d)"
    | "day d = days_in_month (year d) (month d)" "month d < 12"
    | "day d = days_in_month (year d) (month d)" "month d = 12"
    using v by linarith
  then show ?thesis
  proof cases
    case 1
    then show ?thesis by (simp add: next_day_def toordinal_def ymd2ord_def)
  next
    case 2
    with v days_before_month_step [of "month d" "year d"] show ?thesis
      by (simp add: next_day_def toordinal_def ymd2ord_def)
  next
    case 3
    then have day: "day d = 31" by (simp add: days_in_month_def DAYS_IN_MONTH_def)
    have "days_before_month (year d + 1) 1 = 0"
      by (simp add: days_before_month_def DAYS_BEFORE_MONTH_def)
    moreover have "days_before_month (year d) 12 = 334 + (if is_leap (year d) then 1 else 0)"
      by (simp add: days_before_month_def DAYS_BEFORE_MONTH_def)
    ultimately show ?thesis
      using 3 day days_before_year_step [OF v(1)]
      by (simp add: next_day_def toordinal_def ymd2ord_def)
  qed
qed

lemma valid_next_day:
  assumes "valid_date d" and "\<not> (year d = MAXYEAR \<and> month d = 12 \<and> day d = 31)"
  shows "valid_date (next_day d)"
proof -
  from assms(1) have v: "1 \<le> year d" "year d \<le> 9999" "1 \<le> month d" "month d \<le> 12"
    "1 \<le> day d" "day d \<le> days_in_month (year d) (month d)"
    by (simp_all add: valid_date_def)
  consider "day d < days_in_month (year d) (month d)"
    | "day d = days_in_month (year d) (month d)" "month d < 12"
    | "day d = days_in_month (year d) (month d)" "month d = 12"
    using v by linarith
  then show ?thesis
  proof cases
    case 1
    with v show ?thesis by (simp add: next_day_def valid_date_def)
  next
    case 2
    with v days_in_month_le_31 [of "month d + 1" "year d"] show ?thesis
      by (simp add: next_day_def valid_date_def)
  next
    case 3
    then have "day d = 31" by (simp add: days_in_month_def DAYS_IN_MONTH_def)
    with 3 assms(2) v have "year d + 1 \<le> 9999" by (simp add: MAXYEAR_def)
    with 3 v show ?thesis
      by (simp add: next_day_def valid_date_def days_in_month_def DAYS_IN_MONTH_def)
  qed
qed

lemma date_add_days_Inr:
  "valid_date d \<Longrightarrow> date_add_days d k = Inr c \<Longrightarrow>
     valid_date c \<and> toordinal c = toordinal d + k"
proof (induction k arbitrary: d)
  case 0
  then show ?case by simp
next
  case (Suc k)
  from Suc.prems(2) have ok: "\<not> (year d = MAXYEAR \<and> month d = 12 \<and> day d = 31)"
    and rest: "date_add_days (next_day d) k = Inr c"
    by (auto split: if_splits)
  from Suc.IH [OF valid_next_day [OF Suc.prems(1) ok] rest] toordinal_next_day [OF Suc.prems(1)]
  show ?case by simp
qed

lemma weekday_last_day:
  assumes "year d = MAXYEAR \<and> month d = 12 \<and> day d = 31"
  shows "weekday d = 4"
  using assms
  by (simp add: weekday_def toordinal_def ymd2ord_def days_before_year_def Let_def
      days_before_month_def DAYS_BEFORE_MONTH_def is_leap_def MAXYEAR_def)

lemma weekday_add:
  assumes "valid_date d" and "date_add_days d k = Inr c"
  shows "weekday c = (weekday d + k) mod 7"
proof -
  from date_add_days_Inr [OF assms] have "toordinal c = toordinal d + k" by simp
  then have "toordinal c + 6 = toordinal d + 6 + k" by simp
  then have "(toordinal c + 6) mod 7 = ((toordinal d + 6) mod 7 + k) mod 7"
    by (simp only: mod_add_left_eq)
  then show ?thesis by (simp only: weekday_def)
qed

lemma weekend_shift:
  assumes "valid_date d" and "5 \<le> weekday d"
  shows "\<exists>c. date_add_days d (7 - weekday d) = Inr c"
proof -
  have "weekday d < 7" by (simp add: weekday_def)
  with assms(2) consider "weekday d = 5" | "weekday d = 6" by linarith
  then show ?thesis
  proof cases
    case 1
    with weekday_last_day [of d]
    have ok: "\<not> (year d = MAXYEAR \<and> month d = 12 \<and> day d = 31)" by auto
    have step: "date_add_days d (Suc 0) = Inr (next_day d)" using ok by simp
    from weekday_add [OF assms(1) step] 1 have "weekday (next_day d) = 6" by simp
    with weekday_last_day [of "next_day d"]
    have ok': "\<not> (year (next_day d) = MAXYEAR \<and> month (next_day d) = 12 \<and> day (next_day d) = 31)"
      by auto
    have "7 - weekday d = Suc (Suc 0)" using 1 by simp
    with ok ok' show ?thesis by simp
  next
    case 2
    with weekday_last_day [of d]
    have ok: "\<not> (year d = MAXYEAR \<and> month d = 12 \<and> day d = 31)" by auto
    have "7 - weekday d = Suc 0" using 2 by simp
    with ok show ?thesis by simp
  qed
qed

lemma replace_year_Inr:
  assumes "replace_year d y = Inr c"
  shows "c = d\<lparr>year := y\<rparr> \<and> valid_date c"
proof -
  from assms have "date_new y (month d) (day d) = Inr c" by (simp add: replace_year_def)
  from date_new_Inr [OF this] show ?thesis by (simp add: valid_date_def)
qed

lemma decimal_expand_2: "10 * (n div 10) + n mod 10 = n" for n :: nat
  by simp

lemma decimal_expand_4:
  "1000 * (y div 1000) + 100 * (y div 100 mod 10) + 10 * (y div 10 mod 10) + y mod 10 = y"
  for y :: nat
proof -
  have e2: "y div 100 = y div 10 div 10" by (simp add: div_mult2_eq)
  have e3: "y div 1000 = y div 10 div 10 div 10" by (simp add: div_mult2_eq)
  have a: "10 * (y div 10) + y mod 10 = y" by simp
  have b: "10 * (y div 10 div 10) + y div 10 mod 10 = y div 10" by simp
  have c: "10 * (y div 10 div 10 div 10) + y div 10 div 10 mod 10 = y div 10 div 10" by simp
  show ?thesis unfolding e2 e3 using a b c by linarith
qed

lemma strftime_Ymd_digits:
  assumes "valid_date d"
  shows "strftime_Ymd d =
     [digit_char (year d div 1000), digit_char (year d div 100 mod 10),
      digit_char (year d div 10 mod 10), digit_char (year d mod 10), CHR ''-'',
      digit_char (month d div 10), digit_char (month d mod 10), CHR ''-'',
      digit_char (day d div 10), digit_char (day d mod 10)]"
proof -
  from assms have y: "year d < 10000" and m: "month d < 100" by (simp_all add: valid_date_def)
  from assms days_in_month_le_31 [of "month d" "year d"] have dd: "day d < 100"
    by (simp add: valid_date_def)
  show ?thesis
    unfolding strftime_Ymd_def zero_padded_4 [OF y] zero_padded_2 [OF m] zero_padded_2 [OF dd]
    by simp
qed

lemma strftime_Ymd_shape:
  assumes "valid_date d"
  shows "length (strftime_Ymd d) = 10 \<and> strftime_Ymd d ! 4 = CHR ''-'' \<and>
         strftime_Ymd d ! 7 = CHR ''-'' \<and>
         int_of_text (take 4 (strftime_Ymd d)) = year d \<and>
         int_of_text (take 2 (drop 5 (strftime_Ymd d))) = month d \<and>
         int_of_text (drop 8 (strftime_Ymd d)) = day d"
proof -
  from assms have y: "year d < 10000" and m: "month d < 100" by (simp_all add: valid_date_def)
  from assms days_in_month_le_31 [of "month d" "year d"] have dd: "day d < 100"
    by (simp add: valid_date_def)
  have yb: "year d div 1000 < 10" "year d div 100 mod 10 < 10" "year d div 10 mod 10 < 10"
    "year d mod 10 < 10" using y by simp_all
  have mb: "month d div 10 < 10" "month d mod 10 < 10" using m by simp_all
  have db: "day d div 10 < 10" "day d mod 10 < 10" using dd by simp_all
  have iy: "int_of_text [digit_char (year d div 1000), digit_char (year d div 100 mod 10),
      digit_char (year d div 10 mod 10), digit_char (year d mod 10)] = year d"
    using yb decimal_expand_4 [of "year d"]
    by (simp add: int_of_text_4 isdecimal_digit_char digit_val_digit_char)
  have im: "int_of_text [digit_char (month d div 10), digit_char (month d mod 10)] = month d"
    using mb by (simp add: int_of_text_2 isdecimal_digit_char digit_val_digit_char)
  have idd: "int_of_text [digit_char (day d div 10), digit_char (day d mod 10)] = day d"
    using db by (simp add: int_of_text_2 isdecimal_digit_char digit_val_digit_char)
  show ?thesis
    unfolding strftime_Ymd_digits [OF assms] using iy im idd by simp
qed

section \<open>The congratulation date\<close>

lemma upcoming_entry_included:
  assumes "fst (upcoming_entry today r) = Inr (Some (nm, text))"
  shows "nm = name r \<and>
     (\<exists>bday cd. birthday r = Some bday \<and>
        valid_date (next_occurrence today bday) \<and>
        0 \<le> days_between (next_occurrence today bday) today \<and>
        days_between (next_occurrence today bday) today \<le> 7 \<and>
        (if 5 \<le> weekday (next_occurrence today bday)
         then date_add_days (next_occurrence today bday)
                (7 - weekday (next_occurrence today bday))
         else Inr (next_occurrence today bday)) = Inr cd \<and>
        text = strftime_Ymd cd)"
proof -
  obtain bday where b: "birthday r = Some bday"
    using assms by (cases "birthday r") (simp_all add: upcoming_entry_def)
  obtain d1 where r1: "replace_year bday (year today) = Inr d1"
    using assms b by (cases "replace_year bday (year today)") (simp_all add: upcoming_entry_def)
  let ?second = "if date_less d1 today then replace_year d1 (year today + 1) else Inr d1"
  obtain occ where r2: "?second = Inr occ"
    using assms b r1 by (cases ?second) (simp_all add: upcoming_entry_def)
  from replace_year_Inr [OF r1] have d1: "d1 = bday\<lparr>year := year today\<rparr>" "valid_date d1"
    by blast+
  have occ: "occ = next_occurrence today bday \<and> valid_date occ"
  proof (cases "date_less d1 today")
    case True
    with r2 have "replace_year d1 (year today + 1) = Inr occ" by simp
    from replace_year_Inr [OF this]
    have o: "occ = d1\<lparr>year := year today + 1\<rparr>" "valid_date occ" by blast+
    from o(1) d1(1) True have "occ = next_occurrence today bday"
      by (simp add: next_occurrence_def)
    with o(2) show ?thesis by blast
  next
    case False
    with r2 have o: "occ = d1" by simp
    with d1(1) False have "occ = next_occurrence today bday"
      by (simp add: next_occurrence_def)
    with o d1(2) show ?thesis by blast
  qed
  have window: "0 \<le> days_between occ today \<and> days_between occ today \<le> 7"
    using assms b r1 r2
    by (cases "0 \<le> days_between occ today \<and> days_between occ today \<le> 7")
       (simp_all add: upcoming_entry_def Let_def)
  let ?third = "if 5 \<le> weekday occ then date_add_days occ (7 - weekday occ) else Inr occ"
  obtain cd where r3: "?third = Inr cd"
    using assms b r1 r2 window by (cases ?third) (simp_all add: upcoming_entry_def Let_def)
  from assms b r1 r2 window r3 have "nm = name r" "text = strftime_Ymd cd"
    by (simp_all add: upcoming_entry_def Let_def)
  with b occ window r3 show ?thesis by auto
qed

lemma upcoming_loop_member:
  assumes "fst (upcoming_loop today b upcoming) = Inr out" and "e \<in> set out"
  shows "e \<in> set upcoming \<or> (\<exists>(k, r) \<in> set b. fst (upcoming_entry today r) = Inr (Some e))"
  using assms
proof (induction b arbitrary: upcoming)
  case Nil
  then show ?case by simp
next
  case (Cons p rest)
  obtain k r where p: "p = (k, r)" by (cases p)
  obtain outcome r' where body: "upcoming_entry today r = (outcome, r')"
    by (cases "upcoming_entry today r")
  show ?case
  proof (cases outcome)
    case (Inl err)
    with Cons.prems p body show ?thesis by simp
  next
    case (Inr entry)
    show ?thesis
    proof (cases entry)
      case None
      with Inr p body Cons.prems have "fst (upcoming_loop today rest upcoming) = Inr out"
        by (simp split: prod.splits)
      from Cons.IH [OF this Cons.prems(2)] show ?thesis by auto
    next
      case (Some x)
      with Inr p body Cons.prems
      have "fst (upcoming_loop today rest (upcoming @ [x])) = Inr out"
        by (simp split: prod.splits)
      from Cons.IH [OF this Cons.prems(2)] Some Inr p body show ?thesis by auto
    qed
  qed
qed

text \<open>
  Claim C2. For every entry of the list that the query returns there is a record of the
  book with the entry's name and with a birthday, and the entry's text is the
  congratulation date \<open>cd\<close> formatted as \<open>YYYY-MM-DD\<close> (ten characters: the year in four
  digits, the month and the day in two, with \<open>-\<close> between them). The congratulation date
  is the next occurrence of the birthday when that falls on Monday to Friday; when it
  falls on a Saturday (weekday 5) it is the date 2 days later, and when it falls on a
  Sunday (weekday 6) the date 1 day later, in both cases a Monday (weekday 0).
\<close>

theorem congratulation_date:
  assumes "fst (get_upcoming_birthdays today b) = Inr upcoming"
    and "(nm, text) \<in> set upcoming"
  shows "\<exists>k r bday cd.
     (k, r) \<in> set b \<and> name r = nm \<and> birthday r = Some bday \<and>
     valid_date cd \<and> text = strftime_Ymd cd \<and>
     length text = 10 \<and> text ! 4 = CHR ''-'' \<and> text ! 7 = CHR ''-'' \<and>
     int_of_text (take 4 text) = year cd \<and>
     int_of_text (take 2 (drop 5 text)) = month cd \<and>
     int_of_text (drop 8 text) = day cd \<and>
     (weekday (next_occurrence today bday) < 5 \<longrightarrow> cd = next_occurrence today bday) \<and>
     (weekday (next_occurrence today bday) = 5 \<longrightarrow>
        toordinal cd = toordinal (next_occurrence today bday) + 2 \<and> weekday cd = 0) \<and>
     (weekday (next_occurrence today bday) = 6 \<longrightarrow>
        toordinal cd = toordinal (next_occurrence today bday) + 1 \<and> weekday cd = 0)"
proof -
  from assms have "fst (upcoming_loop today b []) = Inr upcoming"
    by (simp add: get_upcoming_birthdays_def)
  from upcoming_loop_member [OF this assms(2)]
  obtain k r where kr: "(k, r) \<in> set b"
    and entry: "fst (upcoming_entry today r) = Inr (Some (nm, text))"
    by auto
  let ?occ = "\<lambda>bday. next_occurrence today bday"
  from upcoming_entry_included [OF entry]
  obtain bday cd where nm: "nm = name r" and b: "birthday r = Some bday"
    and v: "valid_date (?occ bday)"
    and cd: "(if 5 \<le> weekday (?occ bday)
              then date_add_days (?occ bday) (7 - weekday (?occ bday))
              else Inr (?occ bday)) = Inr cd"
    and rendered: "text = strftime_Ymd cd"
    by blast
  have w7: "weekday (?occ bday) < 7" by (simp add: weekday_def)
  have props: "valid_date cd \<and>
     (weekday (?occ bday) < 5 \<longrightarrow> cd = ?occ bday) \<and>
     (weekday (?occ bday) = 5 \<longrightarrow> toordinal cd = toordinal (?occ bday) + 2 \<and> weekday cd = 0) \<and>
     (weekday (?occ bday) = 6 \<longrightarrow> toordinal cd = toordinal (?occ bday) + 1 \<and> weekday cd = 0)"
  proof (cases "5 \<le> weekday (?occ bday)")
    case False
    with cd v show ?thesis by simp
  next
    case True
    with cd have add: "date_add_days (?occ bday) (7 - weekday (?occ bday)) = Inr cd" by simp
    from date_add_days_Inr [OF v add] weekday_add [OF v add] True w7
    show ?thesis by auto
  qed
  from props strftime_Ymd_shape [of cd] rendered have shape:
    "length text = 10 \<and> text ! 4 = CHR ''-'' \<and> text ! 7 = CHR ''-'' \<and>
     int_of_text (take 4 text) = year cd \<and>
     int_of_text (take 2 (drop 5 text)) = month cd \<and>
     int_of_text (drop 8 text) = day cd"
    by blast
  from kr nm b rendered props shape show ?thesis by blast
qed

lemma ordinals_2024:
  "toordinal \<lparr>year = 2024, month = 6, day = 10\<rparr> = 739047"
  "toordinal \<lparr>year = 2024, month = 6, day = 15\<rparr> = 739052"
  by (simp_all add: toordinal_def ymd2ord_def days_before_year_def days_before_month_def
      DAYS_BEFORE_MONTH_def is_leap_def Let_def)

lemma add_2_days_2024:
  "date_add_days \<lparr>year = 2024, month = 6, day = 15\<rparr> (Suc (Suc 0))
     = Inr \<lparr>year = 2024, month = 6, day = 17\<rparr>"
  by (simp add: next_day_def days_in_month_def DAYS_IN_MONTH_def MAXYEAR_def)

lemma add_2_days_2024_numeral:
  "date_add_days \<lparr>year = 2024, month = 6, day = 15\<rparr> 2
     = Inr \<lparr>year = 2024, month = 6, day = 17\<rparr>"
proof -
  have "date_add_days \<lparr>year = 2024, month = 6, day = 15\<rparr> 2
      = date_add_days \<lparr>year = 2024, month = 6, day = 15\<rparr> (Suc (Suc 0))"
    by (simp only: numeral_2_eq_2)
  then show ?thesis by (simp only: add_2_days_2024)
qed

lemma next_occurrence_bob_2024:
  "next_occurrence \<lparr>year = 2024, month = 6, day = 10\<rparr> \<lparr>year = 1985, month = 6, day = 15\<rparr>
     = \<lparr>year = 2024, month = 6, day = 15\<rparr>"
  by (simp add: next_occurrence_def date_less_def)

lemma weekday_2024_06_15: "weekday \<lparr>year = 2024, month = 6, day = 15\<rparr> = 5"
  by (simp add: weekday_def ordinals_2024)

lemma entry_bob_2024:
  "upcoming_entry \<lparr>year = 2024, month = 6, day = 10\<rparr>
     \<lparr>name = ''Bob'', phones = [], birthday = Some \<lparr>year = 1985, month = 6, day = 15\<rparr>\<rparr>
   = (Inr (Some (''Bob'', ''2024-06-17'')),
      \<lparr>name = ''Bob'', phones = [], birthday = Some \<lparr>year = 1985, month = 6, day = 15\<rparr>\<rparr>)"
proof -
  have r: "replace_year \<lparr>year = 1985, month = 6, day = 15\<rparr> 2024
      = Inr \<lparr>year = 2024, month = 6, day = 15\<rparr>"
    by (simp add: replace_year_def date_new_def MAXYEAR_def days_in_month_def DAYS_IN_MONTH_def)
  have l: "\<not> date_less \<lparr>year = 2024, month = 6, day = 15\<rparr> \<lparr>year = 2024, month = 6, day = 10\<rparr>"
    by (simp add: date_less_def)
  have d: "days_between \<lparr>year = 2024, month = 6, day = 15\<rparr> \<lparr>year = 2024, month = 6, day = 10\<rparr> = 5"
    by (simp add: days_between_def ordinals_2024)
  have f: "strftime_Ymd \<lparr>year = 2024, month = 6, day = 17\<rparr> = ''2024-06-17''"
    by (simp add: strftime_Ymd_def zero_padded_2 zero_padded_4 digit_char_def)
  show ?thesis
    by (simp add: upcoming_entry_def r l d weekday_2024_06_15 add_2_days_2024_numeral f)
qed

theorem congratulation_date_witness:
  "fst (get_upcoming_birthdays \<lparr>year = 2024, month = 6, day = 10\<rparr>
     [(''Bob'', \<lparr>name = ''Bob'', phones = [],
                birthday = Some \<lparr>year = 1985, month = 6, day = 15\<rparr>\<rparr>)])
     = Inr [(''Bob'', ''2024-06-17'')] \<and>
   (''Bob'', ''2024-06-17'') \<in> set [(''Bob'', ''2024-06-17'')] \<and>
   weekday (next_occurrence \<lparr>year = 2024, month = 6, day = 10\<rparr>
              \<lparr>year = 1985, month = 6, day = 15\<rparr>) = 5 \<and>
   (\<exists>cd. valid_date cd \<and> ''2024-06-17'' = strftime_Ymd cd \<and> weekday cd = 0 \<and>
      toordinal cd = toordinal (next_occurrence \<lparr>year = 2024, month = 6, day = 10\<rparr>
                                  \<lparr>year = 1985, month = 6, day = 15\<rparr>) + 2)"
proof -
  let ?today = "\<lparr>year = 2024, month = 6, day = 10\<rparr>"
  let ?bob = "\<lparr>name = ''Bob'', phones = [],
               birthday = Some \<lparr>year = 1985, month = 6, day = 15\<rparr>\<rparr>"
  have q: "fst (get_upcoming_birthdays ?today [(''Bob'', ?bob)]) = Inr [(''Bob'', ''2024-06-17'')]"
    unfolding get_upcoming_birthdays_def upcoming_loop.simps entry_bob_2024 by simp
  have m: "(''Bob'', ''2024-06-17'') \<in> set [(''Bob'', ''2024-06-17'')]" by simp
  have w: "weekday (next_occurrence ?today \<lparr>year = 1985, month = 6, day = 15\<rparr>) = 5"
    by (simp only: next_occurrence_bob_2024 weekday_2024_06_15)
  from congratulation_date [OF q m]
  obtain k r bday cd where kr: "(k, r) \<in> set [(''Bob'', ?bob)]"
    and b: "birthday r = Some bday"
    and v: "valid_date cd" and t: "''2024-06-17'' = strftime_Ymd cd"
    and sat: "weekday (next_occurrence ?today bday) = 5 \<longrightarrow>
        toordinal cd = toordinal (next_occurrence ?today bday) + 2 \<and> weekday cd = 0"
    by blast
  from kr b have "bday = \<lparr>year = 1985, month = 6, day = 15\<rparr>" by simp
  with sat w have "toordinal cd = toordinal (next_occurrence ?today
      \<lparr>year = 1985, month = 6, day = 15\<rparr>) + 2 \<and> weekday cd = 0"
    by blast
  with v t have "\<exists>cd. valid_date cd \<and> ''2024-06-17'' = strftime_Ymd cd \<and> weekday cd = 0 \<and>
      toordinal cd = toordinal (next_occurrence ?today \<lparr>year = 1985, month = 6, day = 15\<rparr>) + 2"
    by blast
  with q m w show ?thesis by blast
qed

end
